theory Spec2Isabelle
  imports Main "HOL-Library.Word" "HOL-Library.Char_ord" "HOL-Library.List_Lexorder"
begin

section \<open>Failures\<close>

text \<open>
  The ways in which the modelled C++ leaves its normal control flow: a call of the
  library's \<open>error\<close> function (which prints its message and exits the program), an
  access outside a \<open>std::string\<close>, the read of a variable that was never assigned,
  an access through a pointer that does not address enough storage, and an allocation
  that \<open>new\<close> refuses.
\<close>

datatype error =
    Fatal string
  | OutOfRange
  | UninitializedRead
  | MemoryFault
  | BadAlloc

section \<open>String helpers of the support library\<close>

text \<open>
  Modelled from the spec: \<open>toLowerCase\<close> and \<open>toUpperCase\<close> are declared in
  \<open>util.h\<close> (lines 93, 99, 111) and defined in a file that is not part of the sources.
  The header documents them as converting uppercase characters into their lowercase
  equivalents (and conversely); the spec describes the case folding as mapping
  uppercase ASCII letters to lowercase and being the identity otherwise.
\<close>

definition toLowerCase_ch :: "char \<Rightarrow> char" where
  "toLowerCase_ch ch =
     (if 65 \<le> (of_char ch :: nat) \<and> (of_char ch :: nat) \<le> 90
      then char_of ((of_char ch :: nat) + 32) else ch)"

definition toUpperCase_ch :: "char \<Rightarrow> char" where
  "toUpperCase_ch ch =
     (if 97 \<le> (of_char ch :: nat) \<and> (of_char ch :: nat) \<le> 122
      then char_of ((of_char ch :: nat) - 32) else ch)"

definition toLowerCase :: "string \<Rightarrow> string" where
  "toLowerCase str = map toLowerCase_ch str"

definition isUpperLetter :: "char \<Rightarrow> bool" where
  "isUpperLetter ch = (65 \<le> (of_char ch :: nat) \<and> (of_char ch :: nat) \<le> 90)"

section \<open>The assignment: assign5.cpp\<close>

subsection \<open>capitalize\<close>

text \<open>
  \<open>s[0] = f(s[0])\<close> on a \<open>std::string\<close>: a position below \<open>size()\<close> is an
  element of the string. Position \<open>size()\<close> holds the terminator: reading it gives
  the null character, and storing the null character there leaves the string as it is;
  storing another character there, and every access beyond \<open>size()\<close>, is out of
  range.
\<close>

definition string_at :: "string \<Rightarrow> nat \<Rightarrow> error + char" where
  "string_at s pos =
     (if pos < length s then Inr (s ! pos)
      else if pos = length s then Inr (char_of (0::nat))
      else Inl OutOfRange)"

definition string_set :: "string \<Rightarrow> nat \<Rightarrow> char \<Rightarrow> error + string" where
  "string_set s pos ch =
     (if pos < length s then Inr (s[pos := ch])
      else if pos = length s \<and> ch = char_of (0::nat) then Inr s
      else Inl OutOfRange)"

definition capitalize :: "string \<Rightarrow> error + string" where
  "capitalize s0 =
     (let s = toLowerCase s0 in
      case string_at s 0 of
        Inl e \<Rightarrow> Inl e
      | Inr ch \<Rightarrow> string_set s 0 (toUpperCase_ch ch))"

subsection \<open>removeCharacters\<close>

text \<open>
  The local \<open>foundAny\<close> is declared without an initialiser (line 40): it holds
  \<open>None\<close> until the loop assigns it. The loop state is the pair of \<open>res\<close> and
  \<open>foundAny\<close>.
\<close>

definition sentinel :: string where
  "sentinel = ''Requested string 'remove' not found.''"

definition build_rem :: "string \<Rightarrow> char set" where
  "build_rem remove = fold insert remove {}"

fun remove_loop :: "char set \<Rightarrow> string \<Rightarrow> string \<times> bool option \<Rightarrow> string \<times> bool option" where
  "remove_loop rem [] st = st"
| "remove_loop rem (c # cs) (res, foundAny) =
     (let is_in = (c \<in> rem) in
      if \<not> is_in then remove_loop rem cs (res @ [c], foundAny)
      else remove_loop rem cs (res, Some True))"

definition removeCharacters :: "string \<Rightarrow> string \<Rightarrow> error + string" where
  "removeCharacters str remove =
     (let rem = build_rem remove;
          (res, foundAny) = remove_loop rem str ([], None)
      in case foundAny of
           None \<Rightarrow> Inl UninitializedRead
         | Some b \<Rightarrow> if \<not> b then Inr sentinel else Inr res)"

subsection \<open>addCommas\<close>

text \<open>
  \<open>std::string::insert(pos, str)\<close> throws \<open>std::out_of_range\<close> when \<open>pos\<close> exceeds
  the size.
\<close>

definition string_insert :: "nat \<Rightarrow> string \<Rightarrow> string \<Rightarrow> error + string" where
  "string_insert pos t s =
     (if pos > length s then Inl OutOfRange else Inr (take pos s @ t @ drop pos s))"

function addCommas_loop :: "int \<Rightarrow> string \<Rightarrow> error + string" where
  "addCommas_loop i s =
     (if i > 0 then
        (case string_insert (nat i) '','' s of
           Inl e \<Rightarrow> Inl e
         | Inr s' \<Rightarrow> addCommas_loop (i - 3) s')
      else Inr s)"
  by pat_completeness auto
termination
  by (relation "measure (\<lambda>(i, s). nat i)") auto

declare addCommas_loop.simps [simp del]

text \<open>
  \<open>s.size() - 3\<close> is computed in the 64-bit unsigned \<open>size_t\<close>, where it wraps for a
  size below 3, and is then converted to the 32-bit \<open>int i\<close>.
\<close>

definition addCommas_start :: "string \<Rightarrow> int" where
  "addCommas_start s = sint (ucast ((word_of_nat (length s) :: 64 word) - 3) :: 32 word)"

definition addCommas :: "string \<Rightarrow> error + string" where
  "addCommas s = addCommas_loop (addCommas_start s) s"


text \<open>
  What the loop of \<open>addCommas\<close> builds, written as a recursion from the right end:
  the last three characters are split off behind a comma as long as more than three
  remain. It is used to state and prove the properties of \<open>addCommas\<close>.
\<close>

function grouped :: "string \<Rightarrow> string" where
  "grouped s =
     (if length s \<le> 3 then s
      else grouped (take (length s - 3) s) @ '','' @ drop (length s - 3) s)"
  by pat_completeness auto
termination
  by (relation "measure length") auto

declare grouped.simps [simp del]

section \<open>The lexicon's letter codec: util.h\<close>

text \<open>
  \<open>charToOrd\<close> promotes its \<open>char\<close> to \<open>int\<close> (a \<open>char\<close> above 127 is negative
  where \<open>char\<close> is signed), calls the C library's \<open>tolower\<close>, subtracts in \<open>int\<close>
  and converts the result to \<open>unsigned int\<close>. \<open>tolower\<close> is the C library's function
  in the "C" locale: it maps the codes of \<open>A\<close> to \<open>Z\<close> to those of \<open>a\<close> to \<open>z\<close>.
  For the values -128 to -2, which a signed \<open>char\<close> above 127 promotes to, the GNU
  library's table returns the value of the same byte read as unsigned; every other
  value, the end-of-file value -1 among them, is returned unchanged. \<open>ordToChar\<close>
  computes in \<open>unsigned int\<close> and keeps the low eight bits.
\<close>

definition char_to_int :: "char \<Rightarrow> int" where
  "char_to_int ch =
     (if (of_char ch :: nat) < 128 then int (of_char ch) else int (of_char ch) - 256)"

definition tolower_c :: "int \<Rightarrow> int" where
  "tolower_c c =
     (if 65 \<le> c \<and> c \<le> 90 then c + 32
      else if - 128 \<le> c \<and> c \<le> - 2 then c + 256
      else c)"

definition charToOrd :: "char \<Rightarrow> 32 word" where
  "charToOrd ch = word_of_int (tolower_c (char_to_int ch) - 97 + 1)"

definition ordToChar :: "32 word \<Rightarrow> char" where
  "ordToChar ord = char_of (unat (ord - 1 + 97))"

definition isLetter :: "char \<Rightarrow> bool" where
  "isLetter ch = ((65 \<le> (of_char ch :: nat) \<and> (of_char ch :: nat) \<le> 90)
                \<or> (97 \<le> (of_char ch :: nat) \<and> (of_char ch :: nat) \<le> 122))"

section \<open>The grid container: util.h\<close>

subsection \<open>Storage\<close>

text \<open>
  A \<open>Grid\<close> object holds a pointer to a heap array and two dimensions. Copying and
  assignment are about which object owns which array, so objects and arrays live in an
  explicit store: \<open>grids\<close> maps the address of a \<open>Grid\<close> object to its fields,
  \<open>arrays\<close> maps the address returned by \<open>new ValueType[n]\<close> to the array's cells.
  \<open>next_addr\<close> is the allocator's state: every allocation returns it and moves it on,
  so that a new array never shares its address with an earlier one.
  The dimensions are C++ \<open>int\<close>s of 32 bits. Products and sums of \<open>int\<close>s are
  computed by \<open>int_mul\<close> and \<open>int_add\<close>: a signed overflow is undefined in C++, and
  the model gives it the two's complement result that the machine computes. The
  well-formedness predicate \<open>owns\<close> below bounds the number of cells by \<open>INT_MAX\<close>,
  so that no product of the dimensions of a well-formed grid overflows.
\<close>

type_synonym addr = nat

definition int_wrap :: "int \<Rightarrow> int" where
  "int_wrap x = sint (word_of_int x :: 32 word)"

definition int_mul :: "int \<Rightarrow> int \<Rightarrow> int" where
  "int_mul a b = int_wrap (a * b)"

definition int_add :: "int \<Rightarrow> int \<Rightarrow> int" where
  "int_add a b = int_wrap (a + b)"

record Grid =
  elements :: "addr option"
  nRows :: int
  nCols :: int

record 'a heap =
  arrays :: "addr \<rightharpoonup> 'a list"
  grids :: "addr \<rightharpoonup> Grid"
  next_addr :: addr

definition bind_err :: "error + 'a \<Rightarrow> ('a \<Rightarrow> error + 'b) \<Rightarrow> error + 'b" where
  "bind_err m f = (case m of Inl e \<Rightarrow> Inl e | Inr x \<Rightarrow> f x)"

definition deref :: "'a heap \<Rightarrow> addr \<Rightarrow> error + Grid" where
  "deref h this = (case grids h this of None \<Rightarrow> Inl MemoryFault | Some g \<Rightarrow> Inr g)"

text \<open>\<open>p[i]\<close> for a pointer \<open>p\<close>: defined only inside an allocated array.\<close>

definition array_read :: "'a heap \<Rightarrow> addr option \<Rightarrow> int \<Rightarrow> error + 'a" where
  "array_read h p i =
     (case p of
        None \<Rightarrow> Inl MemoryFault
      | Some a \<Rightarrow>
          (case arrays h a of
             None \<Rightarrow> Inl MemoryFault
           | Some xs \<Rightarrow>
               if 0 \<le> i \<and> i < int (length xs) then Inr (xs ! nat i) else Inl MemoryFault))"

definition array_write :: "'a heap \<Rightarrow> addr option \<Rightarrow> int \<Rightarrow> 'a \<Rightarrow> error + 'a heap" where
  "array_write h p i v =
     (case p of
        None \<Rightarrow> Inl MemoryFault
      | Some a \<Rightarrow>
          (case arrays h a of
             None \<Rightarrow> Inl MemoryFault
           | Some xs \<Rightarrow>
               if 0 \<le> i \<and> i < int (length xs)
               then Inr (h\<lparr>arrays := (arrays h)(a \<mapsto> xs[nat i := v])\<rparr>)
               else Inl MemoryFault))"

text \<open>
  \<open>new ValueType[n]\<close> for an \<open>int n\<close>: a negative length makes \<open>new\<close> throw. The
  cells of the new array hold \<open>init\<close>, the default-constructed \<open>ValueType\<close> (for a
  scalar type they are indeterminate; both callers overwrite every cell before it is
  read).
\<close>

definition new_array :: "'a heap \<Rightarrow> int \<Rightarrow> 'a \<Rightarrow> error + (addr \<times> 'a heap)" where
  "new_array h n init =
     (if n < 0 then Inl BadAlloc
      else Inr (next_addr h,
                h\<lparr>arrays := (arrays h)(next_addr h \<mapsto> replicate (nat n) init),
                  next_addr := Suc (next_addr h)\<rparr>))"

text \<open>\<open>delete[] p\<close>: nothing for the null pointer; \<open>p\<close> must address a live array.\<close>

definition delete_array :: "'a heap \<Rightarrow> addr option \<Rightarrow> error + 'a heap" where
  "delete_array h p =
     (case p of
        None \<Rightarrow> Inr h
      | Some a \<Rightarrow>
          (case arrays h a of
             None \<Rightarrow> Inl MemoryFault
           | Some xs \<Rightarrow> Inr (h\<lparr>arrays := (arrays h)(a := None)\<rparr>)))"

text \<open>
  The default constructor (lines 1048 to 1053), for the object at \<open>this\<close>: a null
  pointer and zero dimensions.
\<close>

definition Grid_init :: "'a heap \<Rightarrow> addr \<Rightarrow> 'a heap" where
  "Grid_init h this =
     h\<lparr>grids := (grids h)(this \<mapsto> \<lparr>elements = None, nRows = 0, nCols = 0\<rparr>)\<rparr>"

definition empty_heap :: "'a heap" where
  "empty_heap = \<lparr>arrays = Map.empty, grids = Map.empty, next_addr = 0\<rparr>"

subsection \<open>Bounds-checked access\<close>

text \<open>
  Each method takes the store and the address \<open>this\<close> of its grid. \<open>Grid::set\<close> is
  called \<open>set_cell\<close> here, \<open>set\<close> being the name of a library constant.
\<close>

definition numRows :: "Grid \<Rightarrow> int" where
  "numRows g = nRows g"

definition numCols :: "Grid \<Rightarrow> int" where
  "numCols g = nCols g"

definition inBounds :: "Grid \<Rightarrow> int \<Rightarrow> int \<Rightarrow> bool" where
  "inBounds g row col = (row \<ge> 0 \<and> col \<ge> 0 \<and> row < nRows g \<and> col < nCols g)"

definition get :: "'a heap \<Rightarrow> addr \<Rightarrow> int \<Rightarrow> int \<Rightarrow> error + 'a" where
  "get h this row col =
     bind_err (deref h this) (\<lambda>g.
       if \<not> inBounds g row col then Inl (Fatal ''Grid::get: Grid indices out of bounds'')
       else array_read h (elements g) (int_add (int_mul row (nCols g)) col))"

definition set_cell :: "'a heap \<Rightarrow> addr \<Rightarrow> int \<Rightarrow> int \<Rightarrow> 'a \<Rightarrow> error + 'a heap" where
  "set_cell h this row col v =
     bind_err (deref h this) (\<lambda>g.
       if \<not> inBounds g row col then Inl (Fatal ''Grid::set: Grid indices out of bounds'')
       else array_write h (elements g) (int_add (int_mul row (nCols g)) col) v)"

text \<open>
  \<open>grid[row]\<close> builds a \<open>GridRow\<close> that remembers the grid and the row;
  \<open>GridRow::operator[]\<close> checks the position and returns a reference to the cell, which
  the caller reads (\<open>GridRow_get\<close>) or assigns (\<open>GridRow_set\<close>).
\<close>

record GridRow =
  gp :: addr
  row :: int

definition subscript :: "addr \<Rightarrow> int \<Rightarrow> GridRow" where
  "subscript this r = \<lparr>gp = this, row = r\<rparr>"

definition GridRow_get :: "'a heap \<Rightarrow> GridRow \<Rightarrow> int \<Rightarrow> error + 'a" where
  "GridRow_get h gr col =
     bind_err (deref h (gp gr)) (\<lambda>g.
       if \<not> inBounds g (row gr) col
       then Inl (Fatal ''Grid::operator [][]: Grid index values out of range'')
       else array_read h (elements g) (int_add (int_mul (row gr) (nCols g)) col))"

definition GridRow_set :: "'a heap \<Rightarrow> GridRow \<Rightarrow> int \<Rightarrow> 'a \<Rightarrow> error + 'a heap" where
  "GridRow_set h gr col v =
     bind_err (deref h (gp gr)) (\<lambda>g.
       if \<not> inBounds g (row gr) col
       then Inl (Fatal ''Grid::operator [][]: Grid index values out of range'')
       else array_write h (elements g) (int_add (int_mul (row gr) (nCols g)) col) v)"

subsection \<open>Deep copying\<close>

text \<open>
  The loop of \<open>deepCopy\<close>: \<open>elements[i] = grid.elements[i]\<close> for \<open>i\<close> below \<open>n\<close>,
  with \<open>dst\<close> the new array and \<open>srcp\<close> the source grid's pointer.
\<close>

function copy_loop :: "int \<Rightarrow> int \<Rightarrow> addr \<Rightarrow> addr option \<Rightarrow> 'a heap \<Rightarrow> error + 'a heap" where
  "copy_loop i n dst srcp h =
     (if i < n then
        bind_err (array_read h srcp i) (\<lambda>v.
        bind_err (array_write h (Some dst) i v) (\<lambda>h'.
          copy_loop (i + 1) n dst srcp h'))
      else Inr h)"
  by pat_completeness auto
termination
  by (relation "measure (\<lambda>(i, n, dst, srcp, h). nat (n - i))") auto

declare copy_loop.simps [simp del]

text \<open>
  \<open>deepCopy\<close> reads the source's fields, allocates, copies and stores the three fields
  of \<open>this\<close>. It is only called on an object other than the source: \<open>operator=\<close>
  tests it, and a copy constructor's object is new.
\<close>

definition deepCopy :: "'a \<Rightarrow> 'a heap \<Rightarrow> addr \<Rightarrow> addr \<Rightarrow> error + 'a heap" where
  "deepCopy init h this src =
     bind_err (deref h src) (\<lambda>grid.
       let n = int_mul (nRows grid) (nCols grid) in
       bind_err (new_array h n init) (\<lambda>(a, h1).
       bind_err (copy_loop 0 n a (elements grid) h1) (\<lambda>h2.
         Inr (h2\<lparr>grids := (grids h2)(this \<mapsto>
                \<lparr>elements = Some a, nRows = nRows grid, nCols = nCols grid\<rparr>)\<rparr>))))"

definition assign :: "'a \<Rightarrow> 'a heap \<Rightarrow> addr \<Rightarrow> addr \<Rightarrow> error + 'a heap" where
  "assign init h this src =
     (if this \<noteq> src then
        bind_err (deref h this) (\<lambda>g.
        bind_err (delete_array h (elements g)) (\<lambda>h1.
          deepCopy init h1 this src))
      else Inr h)"

definition Grid_copy :: "'a \<Rightarrow> 'a heap \<Rightarrow> addr \<Rightarrow> addr \<Rightarrow> error + 'a heap" where
  "Grid_copy init h this src = deepCopy init h this src"

text \<open>What a client can observe of a grid: its dimensions and its cells in row-major order.\<close>

definition grid_view :: "'a heap \<Rightarrow> addr \<Rightarrow> error + (int \<times> int \<times> 'a list)" where
  "grid_view h this =
     bind_err (deref h this) (\<lambda>g.
       case elements g of
         None \<Rightarrow> Inr (nRows g, nCols g, [])
       | Some a \<Rightarrow>
           (case arrays h a of
              None \<Rightarrow> Inl MemoryFault
            | Some xs \<Rightarrow> Inr (nRows g, nCols g, xs)))"

text \<open>
  A well-formed grid object: it exists at \<open>this\<close>, its pointer addresses a live array
  \<open>xs\<close> allocated earlier, and the array has \<open>nRows * nCols\<close> cells, a number within
  the range of \<open>int\<close>. Every constructor and \<open>resize\<close> establish this.
\<close>

definition owns :: "'a heap \<Rightarrow> addr \<Rightarrow> Grid \<Rightarrow> addr \<Rightarrow> 'a list \<Rightarrow> bool" where
  "owns h this g a xs =
     (grids h this = Some g \<and> elements g = Some a \<and> arrays h a = Some xs
      \<and> a < next_addr h
      \<and> 0 \<le> nRows g \<and> 0 \<le> nCols g \<and> nRows g * nCols g \<le> 2147483647
      \<and> int (length xs) = nRows g * nCols g)"

text \<open>
  A well-formed grid in general: one that owns its array, or the grid of the default
  constructor, whose pointer is null and whose dimensions are zero. \<open>xs\<close> is the
  row-major list of its cells.
\<close>

definition well_formed :: "'a heap \<Rightarrow> addr \<Rightarrow> Grid \<Rightarrow> 'a list \<Rightarrow> bool" where
  "well_formed h this g xs =
     (case elements g of
        None \<Rightarrow> grids h this = Some g \<and> nRows g = 0 \<and> nCols g = 0 \<and> xs = []
      | Some a \<Rightarrow> owns h this g a xs)"

subsection \<open>Resizing\<close>

text \<open>\<open>std::to_string\<close> on an \<open>int\<close>: the decimal digits, after a minus sign if negative.\<close>

function digits_of :: "nat \<Rightarrow> string" where
  "digits_of n =
     (if n < 10 then [char_of (48 + n)]
      else digits_of (n div 10) @ [char_of (48 + n mod 10)])"
  by pat_completeness auto
termination
  by (relation "measure id") auto

declare digits_of.simps [simp del]

definition to_string :: "int \<Rightarrow> string" where
  "to_string i = (if i < 0 then CHR ''-'' # digits_of (nat (- i)) else digits_of (nat i))"

text \<open>The loop \<open>for (i = 0; i < nRows * nCols; i++) elements[i] = value\<close>.\<close>

function fill_loop :: "int \<Rightarrow> int \<Rightarrow> addr option \<Rightarrow> 'a \<Rightarrow> 'a heap \<Rightarrow> error + 'a heap" where
  "fill_loop i n p v h =
     (if i < n then
        bind_err (array_write h p i v) (\<lambda>h'. fill_loop (i + 1) n p v h')
      else Inr h)"
  by pat_completeness auto
termination
  by (relation "measure (\<lambda>(i, n, p, v, h). nat (n - i))") auto

declare fill_loop.simps [simp del]

text \<open>
  The two nested loops that retain the old contents. The inner loop runs over the
  columns of one row: \<open>elements[(row * nCols) + col] = oldElements[(row * oldnRows) + col]\<close>.
\<close>

function retain_cols ::
  "int \<Rightarrow> int \<Rightarrow> int \<Rightarrow> int \<Rightarrow> int \<Rightarrow> addr option \<Rightarrow> addr option \<Rightarrow> 'a heap \<Rightarrow> error + 'a heap" where
  "retain_cols col minCols r nCols' oldnRows p oldElements h =
     (if col < minCols then
        bind_err (array_read h oldElements (int_add (int_mul r oldnRows) col)) (\<lambda>v.
        bind_err (array_write h p (int_add (int_mul r nCols') col) v) (\<lambda>h'.
          retain_cols (col + 1) minCols r nCols' oldnRows p oldElements h'))
      else Inr h)"
  by pat_completeness auto
termination
  by (relation "measure (\<lambda>(col, minCols, r, nCols', oldnRows, p, oldElements, h). nat (minCols - col))")
     auto

declare retain_cols.simps [simp del]

function retain_rows ::
  "int \<Rightarrow> int \<Rightarrow> int \<Rightarrow> int \<Rightarrow> int \<Rightarrow> addr option \<Rightarrow> addr option \<Rightarrow> 'a heap \<Rightarrow> error + 'a heap" where
  "retain_rows r minRows minCols nCols' oldnRows p oldElements h =
     (if r < minRows then
        bind_err (retain_cols 0 minCols r nCols' oldnRows p oldElements h) (\<lambda>h'.
          retain_rows (r + 1) minRows minCols nCols' oldnRows p oldElements h')
      else Inr h)"
  by pat_completeness auto
termination
  by (relation "measure (\<lambda>(r, minRows, minCols, nCols', oldnRows, p, oldElements, h). nat (minRows - r))")
     auto

declare retain_rows.simps [simp del]

definition resize :: "'a \<Rightarrow> 'a heap \<Rightarrow> addr \<Rightarrow> int \<Rightarrow> int \<Rightarrow> bool \<Rightarrow> error + 'a heap" where
  "resize dflt h this nRows' nCols' retain =
     (if nRows' < 0 \<or> nCols' < 0 then
        Inl (Fatal (''Grid::resize: Attempt to resize grid to invalid size (''
                    @ to_string nRows' @ '', '' @ to_string nCols' @ '')''))
      else
        bind_err (deref h this) (\<lambda>g.
          let oldElements = elements g;
              oldnRows = nRows g;
              oldnCols = nCols g
          in
          bind_err (new_array h (int_mul nRows' nCols') dflt) (\<lambda>(a, h1).
            let h2 = h1\<lparr>grids := (grids h1)(this \<mapsto>
                        \<lparr>elements = Some a, nRows = nRows', nCols = nCols'\<rparr>)\<rparr>;
                value = dflt
            in
            bind_err (fill_loop 0 (int_mul nRows' nCols') (Some a) value h2) (\<lambda>h3.
            bind_err
              (if retain then
                 (let minRows = (if oldnRows < nRows' then oldnRows else nRows');
                      minCols = (if oldnCols < nCols' then oldnCols else nCols')
                  in retain_rows 0 minRows minCols nCols' oldnRows (Some a) oldElements h3)
               else Inr h3) (\<lambda>h4.
              if oldElements \<noteq> None then delete_array h4 oldElements else Inr h4)))))"

subsection \<open>A store with two grids\<close>

text \<open>
  Two grids of \<open>int\<close>, each owning its array: a 2-by-3 grid holding 1 to 6 at
  address 100 and a 1-by-2 grid at address 200. The theorems below are exercised on it.
\<close>

definition grid_A :: Grid where
  "grid_A = \<lparr>elements = Some 0, nRows = 2, nCols = 3\<rparr>"

definition grid_B :: Grid where
  "grid_B = \<lparr>elements = Some 1, nRows = 1, nCols = 2\<rparr>"

definition two_grids :: "int heap" where
  "two_grids = \<lparr>arrays = [0 \<mapsto> [1, 2, 3, 4, 5, 6], 1 \<mapsto> [7, 8]],
                grids = [100 \<mapsto> grid_A, 200 \<mapsto> grid_B],
                next_addr = 2\<rparr>"

section \<open>The lexicon and its iterator: util.h\<close>

subsection \<open>Data\<close>

text \<open>
  An \<open>Edge\<close> is the packed record of lines 426 to 440: a 5-bit letter, two 1-bit
  flags, an unused bit and a 24-bit index of the first child.
\<close>

record Edge =
  letter :: "5 word"
  lastEdge :: bool
  accept :: bool
  unused :: bool
  children :: "24 word"

text \<open>
  Modelled from the spec: the compressed store. The class keeps it as the arrays
  \<open>edges\<close> and \<open>start\<close>, which only functions defined outside the sources read
  (\<open>advanceToNextWordInDawg\<close>, \<open>advanceToNextEdge\<close>, \<open>traceToLastEdge\<close>). The spec
  describes their effect: the ordered iteration of the compressed store is the
  depth-first traversal that visits the children of a node in increasing letter order
  and yields a word exactly when the edge being visited has \<open>accept\<close> set, the state
  needed to resume being the pending edges and the prefix accumulated so far. The model
  holds the compressed store as what this traversal visits: \<open>dawg\<close> lists the accepting
  edges in traversal order, each with the prefix accumulated on the way to it. An edge
  pointer of the iterator is a position in this list.

  \<open>otherWords\<close> is the \<open>std::set<std::string>\<close>, held as the list of its elements in
  the set's iteration order.
\<close>

record Lexicon =
  dawg :: "(string \<times> Edge) list"
  numDawgWords :: int
  otherWords :: "string list"

text \<open>
  The iterator's fields (lines 474 to 482). \<open>lp\<close> is the address of the lexicon,
  \<open>None\<close> for the null pointer; \<open>edgePtr\<close> is \<open>None\<close> for the null pointer;
  \<open>setIterator\<close> and \<open>setEnd\<close> are positions in \<open>otherWords\<close>. The explicit stack of
  the traversal is part of the compressed store's resume state and is covered by the
  position \<open>edgePtr\<close>; \<open>tmpWord\<close> is used by \<open>operator->\<close> only.
\<close>

record iterator =
  lp :: "addr option"
  index :: int
  currentDawgPrefix :: string
  currentSetWord :: string
  edgePtr :: "nat option"
  setIterator :: nat
  setEnd :: nat

subsection \<open>Functions defined outside the sources\<close>

text \<open>
  Modelled from the spec: \<open>advanceToNextWordInDawg\<close>, declared at line 484. It moves
  the compressed store's traversal on by one word: from the null pointer (the state in
  which the constructor calls it) to the first accepting edge, otherwise to the next
  one, and to the null pointer when there is none. It sets \<open>currentDawgPrefix\<close> to the
  prefix accumulated on the way to the new edge.
\<close>

definition advanceToNextWordInDawg :: "Lexicon \<Rightarrow> iterator \<Rightarrow> iterator" where
  "advanceToNextWordInDawg lx it =
     (let k = (case edgePtr it of None \<Rightarrow> 0 | Some j \<Rightarrow> Suc j) in
      if k < length (dawg lx)
      then it\<lparr>edgePtr := Some k, currentDawgPrefix := fst (dawg lx ! k)\<rparr>
      else it\<lparr>edgePtr := None\<rparr>)"

text \<open>
  Modelled from the spec: \<open>advanceToNextWordInSet\<close>, declared at line 485. The dynamic
  store is iterated in its native ascending order; the empty string stands for
  "no further word", which is how \<open>operator++\<close> and \<open>operator*\<close> test it.
\<close>

definition advanceToNextWordInSet :: "Lexicon \<Rightarrow> iterator \<Rightarrow> iterator" where
  "advanceToNextWordInSet lx it =
     (if setIterator it = setEnd it then it\<lparr>currentSetWord := []\<rparr>
      else if setIterator it < length (otherWords lx)
      then it\<lparr>currentSetWord := otherWords lx ! setIterator it,
               setIterator := Suc (setIterator it)\<rparr>
      else it\<lparr>currentSetWord := []\<rparr>)"

text \<open>The letter of the edge that \<open>edgePtr\<close> addresses, as the \<open>unsigned int\<close> passed to \<open>ordToChar\<close>.\<close>

definition edge_letter :: "Lexicon \<Rightarrow> nat \<Rightarrow> 32 word" where
  "edge_letter lx k = ucast (letter (snd (dawg lx ! k)))"

text \<open>The words of the compressed store: each accepting edge's prefix followed by its letter.\<close>

definition dawg_words :: "Lexicon \<Rightarrow> string list" where
  "dawg_words lx = map (\<lambda>(p, e). p @ [ordToChar (ucast (letter e))]) (dawg lx)"

text \<open>
  Modelled from the spec: \<open>size\<close>, declared at line 297. It is the distinct-word count
  across the union: the compressed store's accepting-path count, computed once at load
  time and cached (\<open>numDawgWords\<close>), plus the dynamic store's count minus the words of
  the dynamic store that duplicate entries of the compressed store.
\<close>

definition size_lex :: "Lexicon \<Rightarrow> int" where
  "size_lex lx =
     numDawgWords lx + int (length (otherWords lx))
       - int (length (filter (\<lambda>w. w \<in> set (dawg_words lx)) (otherWords lx)))"

subsection \<open>The iterator as the header defines it\<close>

text \<open>
  The constructor of lines 493 to 507, for the lexicon \<open>lx\<close> at address \<open>a\<close>. With
  \<open>endFlag\<close> it sets \<open>lp\<close> and \<open>index\<close> only; the other fields of an end iterator are
  never read by the comparison and are given the values of an empty state here.
\<close>

definition iterator_init :: "addr \<Rightarrow> Lexicon \<Rightarrow> bool \<Rightarrow> iterator" where
  "iterator_init a lx endFlag =
     (if endFlag then
        \<lparr>lp = Some a, index = size_lex lx, currentDawgPrefix = [], currentSetWord = [],
         edgePtr = None, setIterator = 0, setEnd = 0\<rparr>
      else
        advanceToNextWordInSet lx
          (advanceToNextWordInDawg lx
             \<lparr>lp = Some a, index = 0, currentDawgPrefix = [], currentSetWord = [],
              edgePtr = None, setIterator = 0, setEnd = length (otherWords lx)\<rparr>))"

definition begin_it :: "addr \<Rightarrow> Lexicon \<Rightarrow> iterator" where
  "begin_it a lx = iterator_init a lx False"

definition end_it :: "addr \<Rightarrow> Lexicon \<Rightarrow> iterator" where
  "end_it a lx = iterator_init a lx True"

text \<open>\<open>operator++\<close>, lines 519 to 531.\<close>

definition operator_inc :: "Lexicon \<Rightarrow> iterator \<Rightarrow> iterator" where
  "operator_inc lx it =
     (let it' =
        (if edgePtr it = None then advanceToNextWordInSet lx it
         else if currentSetWord it = [] \<or> currentDawgPrefix it < currentSetWord it
              then advanceToNextWordInDawg lx it
              else advanceToNextWordInSet lx it)
      in it'\<lparr>index := index it' + 1\<rparr>)"

text \<open>\<open>operator==\<close>, lines 539 to 541.\<close>

definition operator_eq :: "iterator \<Rightarrow> iterator \<Rightarrow> bool" where
  "operator_eq x rhs = (lp x = lp rhs \<and> index x = index rhs)"

text \<open>\<open>operator*\<close>, lines 547 to 554.\<close>

definition operator_deref :: "Lexicon \<Rightarrow> iterator \<Rightarrow> string" where
  "operator_deref lx it =
     (case edgePtr it of
        None \<Rightarrow> currentSetWord it
      | Some k \<Rightarrow>
          if currentSetWord it = [] \<or> currentDawgPrefix it < currentSetWord it
          then currentDawgPrefix it @ [ordToChar (edge_letter lx k)]
          else currentSetWord it)"

text \<open>
  A full iteration pass: \<open>for (it = begin(); it != end(); ++it)\<close>, collecting \<open>*it\<close>.
  The loop runs until the two iterators compare equal; a pass that does not return is
  \<open>None\<close>.
\<close>

partial_function (option) iterate_from :: "Lexicon \<Rightarrow> iterator \<Rightarrow> iterator \<Rightarrow> string list option" where
  "iterate_from lx it e =
     (if operator_eq it e then Some []
      else Option.bind (iterate_from lx (operator_inc lx it) e)
             (\<lambda>ws. Some (operator_deref lx it # ws)))"

declare iterate_from.simps [code]

definition iterate :: "addr \<Rightarrow> Lexicon \<Rightarrow> string list option" where
  "iterate a lx = iterate_from lx (begin_it a lx) (end_it a lx)"

text \<open>
  A loaded lexicon: the cached count is the number of accepting paths, no word of the
  compressed store is listed twice, and the set's elements are in strictly ascending
  order.
\<close>

definition lexicon_ok :: "Lexicon \<Rightarrow> bool" where
  "lexicon_ok lx =
     (numDawgWords lx = int (length (dawg lx))
      \<and> distinct (dawg_words lx)
      \<and> sorted_wrt (<) (otherWords lx))"


text \<open>
  The example of the spec's section 8: compressed data holding "cat", "car" and "cart",
  then \<open>add("care")\<close>. The trie is c, a, then r (accepting, with the accepting child t)
  and t (accepting); letters are numbered from 1.
\<close>

definition edge_r :: Edge where
  "edge_r = \<lparr>letter = 18, lastEdge = False, accept = True, unused = False, children = 4\<rparr>"

definition edge_t :: Edge where
  "edge_t = \<lparr>letter = 20, lastEdge = True, accept = True, unused = False, children = 0\<rparr>"

definition car_lexicon :: Lexicon where
  "car_lexicon =
     \<lparr>dawg = [(''ca'', edge_r), (''car'', edge_t), (''ca'', edge_t)],
      numDawgWords = 3,
      otherWords = [''care'']\<rparr>"



section \<open>Properties of capitalize\<close>

lemma of_char_toLowerCase_ch:
  "(of_char (toLowerCase_ch ch) :: nat) =
     (if 65 \<le> (of_char ch :: nat) \<and> (of_char ch :: nat) \<le> 90 then of_char ch + 32
      else of_char ch)"
  by (simp add: toLowerCase_ch_def)

lemma not_upper_toLowerCase_ch: "\<not> isUpperLetter (toLowerCase_ch ch)"
  by (simp add: isUpperLetter_def of_char_toLowerCase_ch)

lemma capitalize_empty: "capitalize [] = Inr []"
  by (simp add: capitalize_def toLowerCase_def string_at_def string_set_def toUpperCase_ch_def)

text \<open>
  Claim C10. For every non-empty string \<open>s\<close>, \<open>capitalize s\<close> returns the lowercased
  string with its first character replaced by its uppercase equivalent: the head is
  \<open>toUpperCase\<close> of the lowercased first character, every later character is the
  lowercase equivalent of the character of \<open>s\<close> at its position, and none of them is an
  uppercase letter. Non-emptiness is what puts index 0 inside the string.
\<close>

theorem capitalize_nonempty:
  assumes "s \<noteq> []"
  shows "capitalize s = Inr (toUpperCase_ch (toLowerCase_ch (hd s)) # map toLowerCase_ch (tl s))
       \<and> (\<forall>c\<in>set (map toLowerCase_ch (tl s)). \<not> isUpperLetter c)"
  using assms
  by (cases s)
     (auto simp: capitalize_def toLowerCase_def string_at_def string_set_def
                 not_upper_toLowerCase_ch)

theorem capitalize_nonempty_witness:
  "''hello WORLD'' \<noteq> []
   \<and> capitalize ''hello WORLD'' = Inr ''Hello world''
   \<and> list_all (\<lambda>c. \<not> isUpperLetter c) ''ello world''"
proof -
  have ne: "''hello WORLD'' \<noteq> []" by simp
  have e: "toUpperCase_ch (toLowerCase_ch (hd ''hello WORLD'')) = CHR ''H''"
    by code_simp
  have t: "map toLowerCase_ch (tl ''hello WORLD'') = ''ello world''"
    by code_simp
  show ?thesis
    using ne capitalize_nonempty [OF ne, unfolded e t] by (simp add: list_all_iff)
qed

section \<open>Properties of removeCharacters\<close>

lemma build_rem_eq: "build_rem remove = set remove"
proof -
  have "fold insert xs A = set xs \<union> A" for xs :: "char list" and A
    by (induction xs arbitrary: A) auto
  then show ?thesis by (simp add: build_rem_def)
qed

lemma remove_loop_eq:
  "remove_loop rem str (res, f) =
     (res @ filter (\<lambda>c. c \<notin> rem) str, if \<exists>c\<in>set str. c \<in> rem then Some True else f)"
  by (induction str arbitrary: res f) (auto simp: Let_def)

text \<open>
  The two outcomes of \<open>removeCharacters\<close>: when some character of \<open>remove\<close> occurs in
  \<open>str\<close> the flag has been set and \<open>res\<close> is returned; otherwise the flag is read
  without ever having been assigned. The branch returning the sentinel needs the flag
  to hold \<open>false\<close>, a value that no statement of the function stores.
\<close>

lemma removeCharacters_cases:
  "removeCharacters str remove =
     (if set str \<inter> set remove = {} then Inl UninitializedRead
      else Inr (filter (\<lambda>c. c \<notin> set remove) str))"
  by (auto simp: removeCharacters_def build_rem_eq remove_loop_eq Let_def)

text \<open>
  Claim C4. \<open>removeCharacters\<close> is to return the sentinel exactly when no character of
  \<open>remove\<close> occurs in \<open>str\<close>. On the driver's own test (\<open>removeCharacters("asdfg",
  "45")\<close>, line 77) the function reaches \<open>if (!foundAny)\<close> with \<open>foundAny\<close> never
  assigned: the outcome is the read of an uninitialised variable, not the sentinel.
\<close>

theorem removeCharacters_no_match_uninitialized:
  "removeCharacters ''asdfg'' ''45'' = Inl UninitializedRead"
  by (simp add: removeCharacters_def build_rem_def)

text \<open>
  Claim C5, as stated, at a concrete input: a character of \<open>remove\<close> occurs in \<open>str\<close>
  and the returned subsequence is, character for character, the sentinel string.
\<close>

theorem removeCharacters_sentinel_counterexample:
  "CHR ''!'' \<in> set ''!''
   \<and> CHR ''!'' \<in> set ''Requested string 'remove' not found.!''
   \<and> removeCharacters ''Requested string 'remove' not found.!'' ''!''
       = Inr ''Requested string 'remove' not found.''"
  by (simp add: removeCharacters_def build_rem_def)

text \<open>
  Claim C5, amended. When at least one character of \<open>remove\<close> occurs in \<open>str\<close>,
  \<open>removeCharacters str remove\<close> returns the subsequence of \<open>str\<close> made of exactly
  the characters that do not occur in \<open>remove\<close>, in their original order; the returned
  string is the sentinel text only when that subsequence itself spells it.
\<close>

theorem removeCharacters_subsequence:
  assumes "\<exists>c\<in>set remove. c \<in> set str"
  shows "removeCharacters str remove = Inr (filter (\<lambda>c. c \<notin> set remove) str)
       \<and> (removeCharacters str remove = Inr sentinel
            \<longleftrightarrow> filter (\<lambda>c. c \<notin> set remove) str = sentinel)"
  using assms by (auto simp: removeCharacters_cases)

theorem removeCharacters_subsequence_witness:
  "(\<exists>c\<in>set ''llo''. c \<in> set ''hello'')
   \<and> removeCharacters ''hello'' ''llo'' = Inr ''he''
   \<and> removeCharacters ''hello'' ''llo'' \<noteq> Inr sentinel"
proof -
  have h: "\<exists>c\<in>set ''llo''. c \<in> set ''hello''" by auto
  have f: "filter (\<lambda>c. c \<notin> set ''llo'') ''hello'' = ''he''" by simp
  have n: "''he'' \<noteq> sentinel" by (simp add: sentinel_def)
  show ?thesis
    using h n removeCharacters_subsequence [OF h, unfolded f] by simp
qed

section \<open>Properties of addCommas\<close>

lemma word_of_nat_minus_3: "(word_of_nat n :: 64 word) - 3 = word_of_int (int n - 3)"
  by simp

lemma ucast_64_32_of_int: "(ucast (word_of_int x :: 64 word) :: 32 word) = word_of_int x"
  by transfer simp

lemma sint_32_of_int: "sint (word_of_int x :: 32 word) = signed_take_bit 31 x"
  by (simp add: signed_of_int)

lemma addCommas_start_eq: "addCommas_start s = signed_take_bit 31 (int (length s) - 3)"
  unfolding addCommas_start_def word_of_nat_minus_3 ucast_64_32_of_int sint_32_of_int ..

lemma addCommas_start_small:
  "length s < 2147483651 \<Longrightarrow> addCommas_start s = int (length s) - 3"
  unfolding addCommas_start_eq
  by (rule signed_take_bit_int_eq_self) auto

lemma addCommas_loop_grouped:
  "p \<noteq> [] \<Longrightarrow> addCommas_loop (int (length p)) (p @ q) = Inr (grouped p @ '','' @ q)"
proof (induction "length p" arbitrary: p q rule: less_induct)
  case less
  let ?n = "length p"
  have pos: "int ?n > 0" using less.prems by simp
  have step: "addCommas_loop (int ?n) (p @ q) = addCommas_loop (int ?n - 3) (p @ '','' @ q)"
    using pos by (subst addCommas_loop.simps) (simp add: string_insert_def)
  show ?case
  proof (cases "?n \<le> 3")
    case True
    then have "addCommas_loop (int ?n - 3) (p @ '','' @ q) = Inr (p @ '','' @ q)"
      by (subst addCommas_loop.simps) simp
    moreover have "grouped p = p" using True by (subst grouped.simps) simp
    ultimately show ?thesis using step by simp
  next
    case False
    define p1 where "p1 = take (?n - 3) p"
    define p2 where "p2 = drop (?n - 3) p"
    have p: "p = p1 @ p2" by (simp add: p1_def p2_def)
    have l1: "length p1 = ?n - 3" using False by (simp add: p1_def)
    have ne: "p1 \<noteq> []" using False l1 by auto
    have "int ?n - 3 = int (length p1)" using False l1 by simp
    then have "addCommas_loop (int ?n - 3) (p @ '','' @ q)
                 = addCommas_loop (int (length p1)) (p1 @ (p2 @ '','' @ q))"
      using p by simp
    also have "\<dots> = Inr (grouped p1 @ '','' @ p2 @ '','' @ q)"
      using less.hyps [of p1 "p2 @ '','' @ q"] ne l1 False by simp
    finally have r: "addCommas_loop (int ?n - 3) (p @ '','' @ q)
                 = Inr (grouped p1 @ '','' @ p2 @ '','' @ q)" .
    have "grouped p = grouped p1 @ '','' @ p2"
      using False by (subst grouped.simps) (simp add: p1_def p2_def)
    then show ?thesis using step r by simp
  qed
qed

lemma addCommas_grouped:
  assumes "length s < 2147483651"
  shows "addCommas s = Inr (grouped s)"
proof -
  have st: "addCommas_start s = int (length s) - 3"
    using assms by (rule addCommas_start_small)
  show ?thesis
  proof (cases "length s \<le> 3")
    case True
    then have "addCommas_loop (int (length s) - 3) s = Inr s"
      by (subst addCommas_loop.simps) simp
    moreover have "grouped s = s" using True by (subst grouped.simps) simp
    ultimately show ?thesis by (simp add: addCommas_def st)
  next
    case False
    define p where "p = take (length s - 3) s"
    define q where "q = drop (length s - 3) s"
    have lp: "int (length p) = int (length s) - 3" using False by (simp add: p_def)
    have ne: "p \<noteq> []" using False by (auto simp: p_def)
    have "addCommas s = addCommas_loop (int (length p)) s"
      by (simp add: addCommas_def st lp)
    also have "\<dots> = addCommas_loop (int (length p)) (p @ q)"
      by (simp add: p_def q_def)
    also have "\<dots> = Inr (grouped p @ '','' @ q)"
      using ne by (rule addCommas_loop_grouped)
    also have "grouped p @ '','' @ q = grouped s"
      using False by (subst (2) grouped.simps) (simp add: p_def q_def)
    finally show ?thesis .
  qed
qed

lemma grouped_structure:
  "\<exists>first rest. grouped s = first @ concat (map ((#) CHR '','') rest)
      \<and> first @ concat rest = s
      \<and> (s \<noteq> [] \<longrightarrow> 1 \<le> length first) \<and> length first \<le> 3
      \<and> (\<forall>g\<in>set rest. length g = 3)"
proof (induction s rule: grouped.induct)
  case (1 s)
  show ?case
  proof (cases "length s \<le> 3")
    case True
    then have "grouped s = s" by (subst grouped.simps) simp
    then have "grouped s = s @ concat (map ((#) CHR '','') []) \<and> s @ concat [] = s
        \<and> (s \<noteq> [] \<longrightarrow> 1 \<le> length s) \<and> length s \<le> 3
        \<and> (\<forall>g\<in>set ([]::string list). length g = 3)"
      using True by (cases s) auto
    then show ?thesis by blast
  next
    case False
    define p where "p = take (length s - 3) s"
    define q where "q = drop (length s - 3) s"
    have s: "s = p @ q" by (simp add: p_def q_def)
    have lq: "length q = 3" using False by (simp add: q_def)
    have ne: "p \<noteq> []" using False by (auto simp: p_def)
    from 1 [OF False] obtain first rest where
      ih: "grouped p = first @ concat (map ((#) CHR '','') rest)" "first @ concat rest = p"
          "p \<noteq> [] \<longrightarrow> 1 \<le> length first" "length first \<le> 3" "\<forall>g\<in>set rest. length g = 3"
      unfolding p_def by blast
    have g: "grouped s = grouped p @ '','' @ q"
      using False by (subst grouped.simps) (simp add: p_def q_def)
    have "grouped s = first @ concat (map ((#) CHR '','') (rest @ [q]))
        \<and> first @ concat (rest @ [q]) = s
        \<and> (s \<noteq> [] \<longrightarrow> 1 \<le> length first) \<and> length first \<le> 3
        \<and> (\<forall>g\<in>set (rest @ [q]). length g = 3)"
      using ih ne lq g s by auto
    then show ?thesis by blast
  qed
qed

lemma filter_grouped:
  "filter (\<lambda>c. c \<noteq> CHR '','') (grouped s) = filter (\<lambda>c. c \<noteq> CHR '','') s"
proof (induction s rule: grouped.induct)
  case (1 s)
  show ?case
  proof (cases "length s \<le> 3")
    case True
    then show ?thesis by (subst grouped.simps) simp
  next
    case False
    have "filter (\<lambda>c. c \<noteq> CHR '','') (grouped s)
            = filter (\<lambda>c. c \<noteq> CHR '','') (take (length s - 3) s)
              @ filter (\<lambda>c. c \<noteq> CHR '','') (drop (length s - 3) s)"
      using False 1 [OF False] by (subst grouped.simps) simp
    also have "\<dots> = filter (\<lambda>c. c \<noteq> CHR '','') s"
      by (simp flip: filter_append)
    finally show ?thesis .
  qed
qed

text \<open>
  Claim C9, as stated, at concrete inputs. A string that itself holds a comma does not
  come back when the commas are erased from the result; and for a string of
  \<open>2\<^sup>3\<^sup>1 + 3\<close> characters the conversion of \<open>s.size() - 3\<close> to \<open>int\<close> gives a
  negative \<open>i\<close>, so that no comma is inserted although the string is longer than
  three characters.
\<close>

theorem addCommas_counterexample:
  "addCommas '','' = Inr '',''
   \<and> filter (\<lambda>c. c \<noteq> CHR '','') '','' \<noteq> '',''
   \<and> addCommas (replicate 2147483651 CHR ''7'') = Inr (replicate 2147483651 CHR ''7'')
   \<and> CHR '','' \<notin> set (replicate 2147483651 CHR ''7'')
   \<and> 3 < length (replicate 2147483651 CHR ''7'')"
  by (simp add: addCommas_def addCommas_start_eq addCommas_loop.simps
                signed_take_bit_eq_take_bit_minus)

text \<open>
  Claim C9, amended. For every string \<open>s\<close> that holds no comma and has fewer than
  \<open>2\<^sup>3\<^sup>1 + 3\<close> characters, \<open>addCommas s\<close> returns a string \<open>r\<close> such that erasing the
  commas from \<open>r\<close> gives \<open>s\<close>, and \<open>r\<close> is a leftmost group followed by groups that
  each start with a comma: the groups without their commas make up \<open>s\<close>, every group
  after the first has exactly three characters, the first has at most three and, for a
  non-empty \<open>s\<close>, at least one, so that \<open>r\<close> does not start with a comma. A string of at
  most three characters is returned unchanged.
\<close>

theorem addCommas_groups:
  assumes "CHR '','' \<notin> set s" and "length s < 2147483651"
  shows "\<exists>r first rest.
           addCommas s = Inr r
         \<and> filter (\<lambda>c. c \<noteq> CHR '','') r = s
         \<and> r = first @ concat (map ((#) CHR '','') rest)
         \<and> first @ concat rest = s
         \<and> length first \<le> 3
         \<and> (\<forall>g\<in>set rest. length g = 3)
         \<and> (s \<noteq> [] \<longrightarrow> 1 \<le> length first \<and> hd r \<noteq> CHR '','')
         \<and> (length s \<le> 3 \<longrightarrow> r = s)"
proof -
  obtain first rest where
    g: "grouped s = first @ concat (map ((#) CHR '','') rest)" "first @ concat rest = s"
       "s \<noteq> [] \<longrightarrow> 1 \<le> length first" "length first \<le> 3" "\<forall>g\<in>set rest. length g = 3"
    using grouped_structure [of s] by blast
  have r: "addCommas s = Inr (grouped s)"
    using assms(2) by (rule addCommas_grouped)
  have "filter (\<lambda>c. c \<noteq> CHR '','') s = s"
    using assms(1) by (induction s) auto
  then have f: "filter (\<lambda>c. c \<noteq> CHR '','') (grouped s) = s"
    by (simp add: filter_grouped)
  have h: "s \<noteq> [] \<longrightarrow> hd (grouped s) \<noteq> CHR '',''"
  proof
    assume "s \<noteq> []"
    then have ne: "first \<noteq> []" using g(3) by auto
    then have "hd (grouped s) = hd first" by (simp add: g(1))
    moreover have "hd first \<in> set first" using ne by simp
    moreover have "set first \<subseteq> set s" by (subst g(2) [symmetric]) simp
    ultimately show "hd (grouped s) \<noteq> CHR '',''" using assms(1) by auto
  qed
  have u: "length s \<le> 3 \<longrightarrow> grouped s = s"
    by (subst grouped.simps) simp
  show ?thesis
    using r f g h u by blast
qed

theorem addCommas_groups_witness:
  "CHR '','' \<notin> set ''1234567'' \<and> length ''1234567'' < 2147483651
   \<and> addCommas ''1234567'' = Inr ''1,234,567''
   \<and> (\<exists>r first rest.
           addCommas ''1234567'' = Inr r
         \<and> filter (\<lambda>c. c \<noteq> CHR '','') r = ''1234567''
         \<and> r = first @ concat (map ((#) CHR '','') rest)
         \<and> first @ concat rest = ''1234567''
         \<and> length first \<le> 3
         \<and> (\<forall>g\<in>set rest. length g = 3)
         \<and> (''1234567'' \<noteq> [] \<longrightarrow> 1 \<le> length first \<and> hd r \<noteq> CHR '','')
         \<and> (length ''1234567'' \<le> 3 \<longrightarrow> r = ''1234567''))"
proof -
  have a: "CHR '','' \<notin> set ''1234567''" by simp
  have b: "length ''1234567'' < 2147483651" by simp
  have c: "addCommas ''1234567'' = Inr ''1,234,567''" by code_simp
  show ?thesis
    using a b c addCommas_groups [OF a b] by blast
qed

section \<open>Properties of the letter codec\<close>

lemma charToOrd_letter:
  assumes "isLetter c"
  shows "charToOrd c = word_of_nat (of_char (toLowerCase_ch c) - 96)"
    and "97 \<le> (of_char (toLowerCase_ch c) :: nat)" and "(of_char (toLowerCase_ch c) :: nat) \<le> 122"
proof -
  define n :: nat where "n = of_char c"
  define m :: nat where "m = of_char (toLowerCase_ch c)"
  have m: "m = (if 65 \<le> n \<and> n \<le> 90 then n + 32 else n)"
    by (simp add: m_def n_def of_char_toLowerCase_ch)
  have n: "(65 \<le> n \<and> n \<le> 90) \<or> (97 \<le> n \<and> n \<le> 122)"
    using assms by (simp add: isLetter_def n_def)
  then show "97 \<le> (of_char (toLowerCase_ch c) :: nat)" "(of_char (toLowerCase_ch c) :: nat) \<le> 122"
    unfolding m_def [symmetric] m by auto
  have "tolower_c (char_to_int c) - 97 + 1 = int (m - 96)"
    using n unfolding m by (auto simp: tolower_c_def char_to_int_def n_def [symmetric])
  then show "charToOrd c = word_of_nat (of_char (toLowerCase_ch c) - 96)"
    unfolding charToOrd_def m_def by simp
qed

lemma ex_ord:
  assumes "1 \<le> w" "w \<le> (26 :: 32 word)"
  obtains k where "w = word_of_nat k" "1 \<le> k" "k \<le> 26"
proof 
  show "w = word_of_nat (unat w)" by simp
  show "1 \<le> unat w" using assms(1) by (simp add: word_le_nat_alt)
  show "unat w \<le> 26" using assms(2) by (simp add: word_le_nat_alt)
qed

lemma ordToChar_small:
  assumes "1 \<le> k" "k \<le> 26"
  shows "ordToChar (word_of_nat k) = char_of (k + 96)"
proof -
  have e1: "(word_of_nat k :: 32 word) - 1 + 97 = word_of_nat (k + 96)"
    using assms by simp
  have e2: "unat (word_of_nat (k + 96) :: 32 word) = k + 96"
    using assms by (simp only: unat_of_nat) simp
  show ?thesis unfolding ordToChar_def e1 e2 ..
qed

lemma word_small_bounds:
  assumes "1 \<le> k" "k \<le> 26"
  shows "1 \<le> (word_of_nat k :: 32 word)" "(word_of_nat k :: 32 word) \<le> 26"
  using assms by (simp_all add: word_le_nat_alt unat_of_nat take_bit_nat_eq_self)

text \<open>
  Claim C7. The letter codec is a case-insensitive bijection between the letters and
  the integers 1 to 26: for every ASCII letter \<open>c\<close>, uppercase or lowercase,
  \<open>charToOrd c\<close> lies in 1..26 and \<open>ordToChar (charToOrd c)\<close> is the lowercase of
  \<open>c\<close>; for every \<open>ord\<close> in 1..26, \<open>ordToChar ord\<close> is a lowercase letter and
  \<open>charToOrd (ordToChar ord) = ord\<close>.
\<close>

theorem letter_codec:
  "(isLetter c \<longrightarrow>
      1 \<le> charToOrd c \<and> charToOrd c \<le> 26 \<and> ordToChar (charToOrd c) = toLowerCase_ch c)
   \<and> (1 \<le> ord \<and> ord \<le> 26 \<longrightarrow>
      charToOrd (ordToChar ord) = ord
      \<and> 97 \<le> (of_char (ordToChar ord) :: nat) \<and> (of_char (ordToChar ord) :: nat) \<le> 122)"
proof (intro conjI impI)
  assume l: "isLetter c"
  define m :: nat where "m = of_char (toLowerCase_ch c)"
  have c: "charToOrd c = word_of_nat (m - 96)" and b: "97 \<le> m" "m \<le> 122"
    using charToOrd_letter [OF l] by (simp_all add: m_def)
  have k: "1 \<le> m - 96" "m - 96 \<le> 26" using b by auto
  show "1 \<le> charToOrd c" "charToOrd c \<le> 26"
    unfolding c using word_small_bounds [OF k] by auto
  have "ordToChar (charToOrd c) = char_of (m - 96 + 96)"
    unfolding c by (rule ordToChar_small [OF k])
  also have "m - 96 + 96 = m" using b by simp
  finally show "ordToChar (charToOrd c) = toLowerCase_ch c"
    by (simp add: m_def)
next
  assume o: "1 \<le> ord \<and> ord \<le> 26"
  then obtain k where k: "ord = word_of_nat k" "1 \<le> k" "k \<le> 26"
    using ex_ord by blast
  have oc: "ordToChar ord = char_of (k + 96)"
    unfolding k(1) by (rule ordToChar_small [OF k(2,3)])
  have v: "(of_char (ordToChar ord) :: nat) = k + 96"
    unfolding oc using k by (simp add: of_char_of)
  show "97 \<le> (of_char (ordToChar ord) :: nat)" "(of_char (ordToChar ord) :: nat) \<le> 122"
    unfolding v using k by auto
  have "char_to_int (ordToChar ord) = int k + 96"
    using k(2,3) by (simp add: char_to_int_def v)
  then have "tolower_c (char_to_int (ordToChar ord)) - 97 + 1 = int k"
    using k by (simp add: tolower_c_def)
  then show "charToOrd (ordToChar ord) = ord"
    by (simp add: charToOrd_def k(1))
qed

theorem letter_codec_witness:
  "isLetter CHR ''Q'' \<and> (1::32 word) \<le> 17 \<and> (17::32 word) \<le> 26
   \<and> charToOrd CHR ''Q'' = 17 \<and> ordToChar 17 = CHR ''q'' \<and> charToOrd (ordToChar 17) = 17
   \<and> toLowerCase_ch CHR ''Q'' = CHR ''q''"
proof -
  have a: "isLetter CHR ''Q''" by (simp add: isLetter_def)
  have b: "(1::32 word) \<le> 17 \<and> (17::32 word) \<le> 26" by simp
  have c: "charToOrd CHR ''Q'' = 17" by (simp add: charToOrd_def tolower_c_def char_to_int_def)
  have d: "toLowerCase_ch CHR ''Q'' = CHR ''q''" by code_simp
  show ?thesis
    using a b c d letter_codec [of "CHR ''Q''" 17] by auto
qed

section \<open>Properties of the grid container\<close>

subsection \<open>Bounds-checked access\<close>

lemma cell_index_in_range:
  fixes r c R C :: int
  assumes "0 \<le> r" "0 \<le> c" "r < R" "c < C"
  shows "0 \<le> r * C + c" and "r * C + c < R * C"
proof -
  have C: "0 \<le> C" using assms by simp
  show "0 \<le> r * C + c" using assms C by simp
  have "r * C + c < r * C + C" using assms by simp
  also have "\<dots> = (r + 1) * C" by (simp add: algebra_simps)
  also have "\<dots> \<le> R * C" using assms C by (intro mult_right_mono) auto
  finally show "r * C + c < R * C" .
qed

lemma fatal_iff_get:
  assumes "grids h this = Some g"
  shows "(\<exists>msg. get h this r c = Inl (Fatal msg)) \<longleftrightarrow> \<not> inBounds g r c"
  using assms
  by (auto simp: get_def bind_err_def deref_def array_read_def split: option.splits)

lemma fatal_iff_set:
  assumes "grids h this = Some g"
  shows "(\<exists>msg. set_cell h this r c v = Inl (Fatal msg)) \<longleftrightarrow> \<not> inBounds g r c"
  using assms
  by (auto simp: set_cell_def bind_err_def deref_def array_write_def split: option.splits)

lemma fatal_iff_GridRow_get:
  assumes "grids h this = Some g"
  shows "(\<exists>msg. GridRow_get h (subscript this r) c = Inl (Fatal msg)) \<longleftrightarrow> \<not> inBounds g r c"
  using assms
  by (auto simp: GridRow_get_def subscript_def bind_err_def deref_def array_read_def split: option.splits)

lemma fatal_iff_GridRow_set:
  assumes "grids h this = Some g"
  shows "(\<exists>msg. GridRow_set h (subscript this r) c v = Inl (Fatal msg)) \<longleftrightarrow> \<not> inBounds g r c"
  using assms
  by (auto simp: GridRow_set_def subscript_def bind_err_def deref_def array_write_def split: option.splits)

lemma int_wrap_id: "- 2147483648 \<le> x \<Longrightarrow> x \<le> 2147483647 \<Longrightarrow> int_wrap x = x"
  unfolding int_wrap_def sint_32_of_int
  by (rule signed_take_bit_int_eq_self) auto

lemma owns_cells:
  assumes "owns h this g a xs"
  shows "int_mul (nRows g) (nCols g) = nRows g * nCols g"
proof -
  have "0 \<le> nRows g * nCols g" "nRows g * nCols g \<le> 2147483647"
    using assms by (simp_all add: owns_def)
  then show ?thesis by (simp add: int_mul_def int_wrap_id)
qed

lemma owns_index:
  assumes "owns h this g a xs" "inBounds g r c"
  shows "0 \<le> r * nCols g + c" "r * nCols g + c < int (length xs)" "nat (r * nCols g + c) < length xs"
proof -
  have b: "0 \<le> r" "0 \<le> c" "r < nRows g" "c < nCols g"
    using assms(2) by (simp_all add: inBounds_def)
  have l: "int (length xs) = nRows g * nCols g" using assms(1) by (simp add: owns_def)
  show 1: "0 \<le> r * nCols g + c" using cell_index_in_range(1) [OF b] .
  show 2: "r * nCols g + c < int (length xs)" unfolding l using cell_index_in_range(2) [OF b] .
  show "nat (r * nCols g + c) < length xs" using 1 2 by simp
qed

lemma cell_index_wrap:
  assumes "owns h this g a xs" "inBounds g r c"
  shows "int_add (int_mul r (nCols g)) c = r * nCols g + c"
proof -
  have b: "0 \<le> r" "0 \<le> c" "0 \<le> nCols g"
    using assms by (simp_all add: inBounds_def owns_def)
  have "int (length xs) \<le> 2147483647" using assms(1) by (simp add: owns_def)
  then have u: "r * nCols g + c \<le> 2147483647"
    using owns_index(2) [OF assms] by simp
  have m: "0 \<le> r * nCols g" using b by simp
  then have "r * nCols g \<le> 2147483647" using u b(2) by simp
  then have "int_mul r (nCols g) = r * nCols g"
    using m by (simp add: int_mul_def int_wrap_id)
  moreover have "int_wrap (r * nCols g + c) = r * nCols g + c"
    using u m b(2) by (simp add: int_wrap_id)
  ultimately show ?thesis by (simp add: int_add_def)
qed

lemma in_bounds_access:
  assumes "owns h this g a xs" "inBounds g r c"
  shows "get h this r c = Inr (xs ! nat (r * nCols g + c))"
    and "GridRow_get h (subscript this r) c = Inr (xs ! nat (r * nCols g + c))"
    and "set_cell h this r c v = Inr (h\<lparr>arrays := (arrays h)(a \<mapsto> xs[nat (r * nCols g + c) := v])\<rparr>)"
    and "GridRow_set h (subscript this r) c v = Inr (h\<lparr>arrays := (arrays h)(a \<mapsto> xs[nat (r * nCols g + c) := v])\<rparr>)"
proof -
  have o: "grids h this = Some g" "elements g = Some a" "arrays h a = Some xs"
    using assms(1) by (simp_all add: owns_def)
  note i = owns_index(1,2) [OF assms]
  note w = cell_index_wrap [OF assms]
  show "get h this r c = Inr (xs ! nat (r * nCols g + c))"
    using o i assms(2) by (simp add: get_def bind_err_def deref_def array_read_def w)
  show "GridRow_get h (subscript this r) c = Inr (xs ! nat (r * nCols g + c))"
    using o i assms(2)
    by (simp add: GridRow_get_def subscript_def bind_err_def deref_def array_read_def w)
  show "set_cell h this r c v = Inr (h\<lparr>arrays := (arrays h)(a \<mapsto> xs[nat (r * nCols g + c) := v])\<rparr>)"
    using o i assms(2) by (simp add: set_cell_def bind_err_def deref_def array_write_def w)
  show "GridRow_set h (subscript this r) c v = Inr (h\<lparr>arrays := (arrays h)(a \<mapsto> xs[nat (r * nCols g + c) := v])\<rparr>)"
    using o i assms(2)
    by (simp add: GridRow_set_def subscript_def bind_err_def deref_def array_write_def w)
qed

lemma owns_A: "owns two_grids 100 grid_A 0 [1, 2, 3, 4, 5, 6]"
  by (simp add: owns_def two_grids_def grid_A_def)

text \<open>
  Claim C3, as stated, at a concrete input. A default-constructed grid resized to
  65536 by 65536: \<open>resize\<close> stores the two dimensions and allocates
  \<open>nRows * nCols\<close> cells, an \<open>int\<close> product that overflows to 0. The grid then has
  no cell, position (1, 1) is in bounds, and \<open>get(1, 1)\<close> reads outside the array.
\<close>

theorem grid_access_counterexample:
  "bind_err (resize (0::int) (Grid_init empty_heap 100) 100 65536 65536 False) (\<lambda>h. deref h 100)
      = Inr \<lparr>elements = Some 0, nRows = 65536, nCols = 65536\<rparr>
   \<and> bind_err (resize (0::int) (Grid_init empty_heap 100) 100 65536 65536 False)
        (\<lambda>h. grid_view h 100) = Inr (65536, 65536, [])
   \<and> inBounds \<lparr>elements = Some 0, nRows = 65536, nCols = 65536\<rparr> 1 1
   \<and> bind_err (resize (0::int) (Grid_init empty_heap 100) 100 65536 65536 False)
        (\<lambda>h. get h 100 1 1) = Inl MemoryFault"
  by code_simp

text \<open>
  Claim C3, amended. For a grid object and every pair of integers \<open>(r, c)\<close>:
  \<open>inBounds\<close> holds exactly when \<open>r \<ge> 0\<close>, \<open>c \<ge> 0\<close>, \<open>r < numRows\<close> and
  \<open>c < numCols\<close>; each of \<open>get\<close>, \<open>set\<close> and the chained subscript (read or
  written) calls \<open>error\<close> if and only if the position is out of bounds; and on a grid
  whose array holds \<open>nRows * nCols\<close> cells, that product being within the range of
  \<open>int\<close>, an in-bounds access does not fault and reads or writes the cell at the
  row-major index \<open>r * nCols + c\<close>, which lies inside the array.
\<close>

theorem grid_access:
  assumes "grids h this = Some g"
  shows "(inBounds g r c \<longleftrightarrow> r \<ge> 0 \<and> c \<ge> 0 \<and> r < numRows g \<and> c < numCols g)
       \<and> ((\<exists>msg. get h this r c = Inl (Fatal msg)) \<longleftrightarrow> \<not> inBounds g r c)
       \<and> ((\<exists>msg. set_cell h this r c v = Inl (Fatal msg)) \<longleftrightarrow> \<not> inBounds g r c)
       \<and> ((\<exists>msg. GridRow_get h (subscript this r) c = Inl (Fatal msg)) \<longleftrightarrow> \<not> inBounds g r c)
       \<and> ((\<exists>msg. GridRow_set h (subscript this r) c v = Inl (Fatal msg)) \<longleftrightarrow> \<not> inBounds g r c)
       \<and> (owns h this g a xs \<and> inBounds g r c \<longrightarrow>
              nat (r * nCols g + c) < length xs
            \<and> get h this r c = Inr (xs ! nat (r * nCols g + c))
            \<and> GridRow_get h (subscript this r) c = Inr (xs ! nat (r * nCols g + c))
            \<and> set_cell h this r c v
                = Inr (h\<lparr>arrays := (arrays h)(a \<mapsto> xs[nat (r * nCols g + c) := v])\<rparr>)
            \<and> GridRow_set h (subscript this r) c v
                = Inr (h\<lparr>arrays := (arrays h)(a \<mapsto> xs[nat (r * nCols g + c) := v])\<rparr>))"
proof -
  have 1: "inBounds g r c \<longleftrightarrow> r \<ge> 0 \<and> c \<ge> 0 \<and> r < numRows g \<and> c < numCols g"
    by (simp add: inBounds_def numRows_def numCols_def)
  have 2: "owns h this g a xs \<and> inBounds g r c \<longrightarrow>
              nat (r * nCols g + c) < length xs
            \<and> get h this r c = Inr (xs ! nat (r * nCols g + c))
            \<and> GridRow_get h (subscript this r) c = Inr (xs ! nat (r * nCols g + c))
            \<and> set_cell h this r c v
                = Inr (h\<lparr>arrays := (arrays h)(a \<mapsto> xs[nat (r * nCols g + c) := v])\<rparr>)
            \<and> GridRow_set h (subscript this r) c v
                = Inr (h\<lparr>arrays := (arrays h)(a \<mapsto> xs[nat (r * nCols g + c) := v])\<rparr>)"
  proof (intro impI)
    assume "owns h this g a xs \<and> inBounds g r c"
    then have o: "owns h this g a xs" and b: "inBounds g r c" by simp_all
    show "nat (r * nCols g + c) < length xs
            \<and> get h this r c = Inr (xs ! nat (r * nCols g + c))
            \<and> GridRow_get h (subscript this r) c = Inr (xs ! nat (r * nCols g + c))
            \<and> set_cell h this r c v
                = Inr (h\<lparr>arrays := (arrays h)(a \<mapsto> xs[nat (r * nCols g + c) := v])\<rparr>)
            \<and> GridRow_set h (subscript this r) c v
                = Inr (h\<lparr>arrays := (arrays h)(a \<mapsto> xs[nat (r * nCols g + c) := v])\<rparr>)"
      using owns_index(3) [OF o b] in_bounds_access(1,2) [OF o b] in_bounds_access(3,4) [OF o b, of v]
      by simp
  qed
  show ?thesis
    using 1 2 fatal_iff_get [OF assms] fatal_iff_set [OF assms]
      fatal_iff_GridRow_get [OF assms] fatal_iff_GridRow_set [OF assms]
    by blast
qed

theorem grid_access_witness:
  "grids two_grids 100 = Some grid_A
   \<and> owns two_grids 100 grid_A 0 [1, 2, 3, 4, 5, 6]
   \<and> inBounds grid_A 1 2
   \<and> get two_grids 100 1 2 = Inr 6
   \<and> \<not> inBounds grid_A 2 0
   \<and> (\<exists>msg. get two_grids 100 2 0 = Inl (Fatal msg))"
proof -
  have g: "grids two_grids 100 = Some grid_A" by (simp add: two_grids_def)
  have i: "inBounds grid_A 1 2" "\<not> inBounds grid_A 2 0" by (simp_all add: inBounds_def grid_A_def)
  have n: "nat (1 * nCols grid_A + 2) = 5" by (simp add: grid_A_def)
  show ?thesis
    using g i owns_A
      grid_access [OF g, of 1 2 0 0 "[1, 2, 3, 4, 5, 6]"]
      grid_access [OF g, of 2 0 0 0 "[1, 2, 3, 4, 5, 6]"]
    unfolding n by simp
qed

subsection \<open>Deep copying\<close>

lemma copy_loop_result:
  assumes "arrays h dst = Some ds" "arrays h sa = Some xs" "sa \<noteq> dst"
    and "0 \<le> i" "i \<le> n" "n \<le> int (length xs)" "int (length ds) = n"
  shows "copy_loop i n dst (Some sa) h
           = Inr (h\<lparr>arrays := (arrays h)(dst \<mapsto> take (nat i) ds @ drop (nat i) (take (nat n) xs))\<rparr>)"
  using assms
proof (induction i n dst "Some sa" h arbitrary: ds rule: copy_loop.induct)
  case (1 i n dst h)
  show ?case
  proof (cases "i < n")
    case False
    then have "i = n" using "1.prems" by simp
    then have "take (nat i) ds @ drop (nat i) (take (nat n) xs) = ds"
      using "1.prems" by simp
    moreover have "h\<lparr>arrays := (arrays h)(dst \<mapsto> ds)\<rparr> = h"
      using "1.prems"(1) by (simp add: fun_upd_idem)
    ultimately show ?thesis using False by (subst copy_loop.simps) simp
  next
    case True
    define v where "v = xs ! nat i"
    define h' where "h' = h\<lparr>arrays := (arrays h)(dst \<mapsto> ds[nat i := v])\<rparr>"
    have rd: "array_read h (Some sa) i = Inr v"
      using "1.prems" True by (simp add: array_read_def v_def)
    have wr: "array_write h (Some dst) i v = Inr h'"
      using "1.prems" True by (simp add: array_write_def h'_def)
    have step: "copy_loop i n dst (Some sa) h = copy_loop (i + 1) n dst (Some sa) h'"
      using True rd wr by (subst copy_loop.simps) (simp add: bind_err_def)
    have ih: "copy_loop (i + 1) n dst (Some sa) h'
          = Inr (h'\<lparr>arrays := (arrays h')(dst \<mapsto>
                take (nat (i + 1)) (ds[nat i := v]) @ drop (nat (i + 1)) (take (nat n) xs))\<rparr>)"
      using "1.prems" True
      by (intro "1.hyps" [OF True]) (simp_all add: h'_def)
    have i: "nat i < length ds" "nat i < nat n" "nat n \<le> length xs" "nat (i + 1) = Suc (nat i)"
      using "1.prems" True by simp_all
    have "take (Suc (nat i)) (ds[nat i := v]) = take (nat i) ds @ [v]"
      using i(1) by (simp add: take_Suc_conv_app_nth)
    moreover have "drop (nat i) (take (nat n) xs) = v # drop (Suc (nat i)) (take (nat n) xs)"
      using i by (simp add: v_def flip: Cons_nth_drop_Suc)
    ultimately have l: "take (nat (i + 1)) (ds[nat i := v]) @ drop (nat (i + 1)) (take (nat n) xs)
        = take (nat i) ds @ drop (nat i) (take (nat n) xs)"
      using i(4) by simp
    show ?thesis
      unfolding step ih l by (simp add: h'_def)
  qed
qed

lemma deepCopy_result:
  assumes "owns h src gs sa xs"
  shows "deepCopy init h this src
     = Inr (h\<lparr>arrays := (arrays h)(next_addr h \<mapsto> xs),
             next_addr := Suc (next_addr h),
             grids := (grids h)(this \<mapsto>
                \<lparr>elements = Some (next_addr h), nRows = nRows gs, nCols = nCols gs\<rparr>)\<rparr>)"
proof -
  have o: "grids h src = Some gs" "elements gs = Some sa" "arrays h sa = Some xs"
    "sa < next_addr h" "0 \<le> nRows gs" "0 \<le> nCols gs" "int (length xs) = nRows gs * nCols gs"
    using assms by (simp_all add: owns_def)
  define n where "n = int_mul (nRows gs) (nCols gs)"
  have n: "0 \<le> n" "int (length xs) = n"
    using o by (simp_all add: n_def owns_cells [OF assms])
  define h1 where "h1 = h\<lparr>arrays := (arrays h)(next_addr h \<mapsto> replicate (nat n) init),
                  next_addr := Suc (next_addr h)\<rparr>"
  have na: "new_array h n init = Inr (next_addr h, h1)"
    using n by (simp add: new_array_def h1_def)
  have "copy_loop 0 n (next_addr h) (Some sa) h1
      = Inr (h1\<lparr>arrays := (arrays h1)(next_addr h \<mapsto>
            take (nat 0) (replicate (nat n) init) @ drop (nat 0) (take (nat n) xs))\<rparr>)"
    using o n by (intro copy_loop_result) (auto simp: h1_def)
  also have "take (nat 0) (replicate (nat n) init) @ drop (nat 0) (take (nat n) xs) = xs"
    using n by auto
  finally have cl: "copy_loop 0 n (next_addr h) (Some sa) h1
      = Inr (h1\<lparr>arrays := (arrays h1)(next_addr h \<mapsto> xs)\<rparr>)" .
  show ?thesis
    using o(1,2) na cl
    by (simp add: deepCopy_def bind_err_def deref_def Let_def n_def [symmetric] h1_def)
qed

lemma grid_view_owns: "owns h p g a xs \<Longrightarrow> grid_view h p = Inr (nRows g, nCols g, xs)"
  by (simp add: owns_def grid_view_def bind_err_def deref_def)

lemma copy_loop_empty: "copy_loop 0 0 dst srcp h = Inr h"
  by (subst copy_loop.simps) simp

lemma deepCopy_general:
  assumes "well_formed h src gs xs"
  shows "deepCopy init h this src
     = Inr (h\<lparr>arrays := (arrays h)(next_addr h \<mapsto> xs),
             next_addr := Suc (next_addr h),
             grids := (grids h)(this \<mapsto>
                \<lparr>elements = Some (next_addr h), nRows = nRows gs, nCols = nCols gs\<rparr>)\<rparr>)"
proof (cases "elements gs")
  case (Some sa)
  then have "owns h src gs sa xs" using assms by (simp add: well_formed_def)
  then show ?thesis by (rule deepCopy_result)
next
  case None
  then have o: "grids h src = Some gs" "nRows gs = 0" "nCols gs = 0" "xs = []"
    using assms by (simp_all add: well_formed_def)
  have z: "int_mul 0 0 = 0" by (simp add: int_mul_def int_wrap_def)
  show ?thesis
    using o by (simp add: deepCopy_def bind_err_def deref_def new_array_def copy_loop_empty z)
qed

lemma deepCopy_well_formed:
  assumes src: "well_formed h src gs xs" and ne: "this \<noteq> src"
  defines "h' \<equiv> h\<lparr>arrays := (arrays h)(next_addr h \<mapsto> xs),
             next_addr := Suc (next_addr h),
             grids := (grids h)(this \<mapsto>
                \<lparr>elements = Some (next_addr h), nRows = nRows gs, nCols = nCols gs\<rparr>)\<rparr>"
  shows "deepCopy init h this src = Inr h'"
    and "well_formed h' src gs xs"
    and "owns h' this \<lparr>elements = Some (next_addr h), nRows = nRows gs, nCols = nCols gs\<rparr> (next_addr h) xs"
    and "elements gs \<noteq> Some (next_addr h)"
proof -
  show "deepCopy init h this src = Inr h'"
    unfolding h'_def by (rule deepCopy_general [OF src])
  show "well_formed h' src gs xs"
    using src ne by (auto simp: well_formed_def owns_def h'_def split: option.splits)
  show "owns h' this \<lparr>elements = Some (next_addr h), nRows = nRows gs, nCols = nCols gs\<rparr> (next_addr h) xs"
    using src by (auto simp: well_formed_def owns_def h'_def split: option.splits)
  show "elements gs \<noteq> Some (next_addr h)"
    using src by (auto simp: well_formed_def owns_def split: option.splits)
qed

lemma delete_target:
  assumes dst: "well_formed h this gt ts" and src: "well_formed h src gs xs"
    and ne: "elements gt = None \<or> elements gt \<noteq> elements gs"
  shows "\<exists>hx. delete_array h (elements gt) = Inr hx \<and> well_formed hx src gs xs
              \<and> grids hx = grids h"
proof (cases "elements gt")
  case None
  then show ?thesis using src by (simp add: delete_array_def)
next
  case (Some ta)
  then have "arrays h ta = Some ts" using dst by (simp add: well_formed_def owns_def)
  then have "delete_array h (elements gt) = Inr (h\<lparr>arrays := (arrays h)(ta := None)\<rparr>)"
    using Some by (simp add: delete_array_def)
  moreover have "well_formed (h\<lparr>arrays := (arrays h)(ta := None)\<rparr>) src gs xs"
    using src ne Some by (auto simp: well_formed_def owns_def split: option.splits)
  ultimately show ?thesis by simp
qed

lemma grid_view_well_formed:
  "well_formed h p g xs \<Longrightarrow> grid_view h p = Inr (nRows g, nCols g, xs)"
  by (auto simp: well_formed_def owns_def grid_view_def bind_err_def deref_def split: option.splits)

lemma set_cell_changes:
  assumes "set_cell h p r c v = Inr h'"
  shows "\<exists>g a xs'. grids h p = Some g \<and> elements g = Some a
            \<and> h' = h\<lparr>arrays := (arrays h)(a \<mapsto> xs')\<rparr>"
  using assms
  by (auto simp: set_cell_def bind_err_def deref_def array_write_def
           split: option.splits if_splits)

lemma grid_view_frame:
  assumes "grids h q = Some g'" "elements g' \<noteq> Some a"
  shows "grid_view (h\<lparr>arrays := (arrays h)(a \<mapsto> xs')\<rparr>) q = grid_view h q"
  using assms by (auto simp: grid_view_def bind_err_def deref_def split: option.splits)

lemma set_cell_frame:
  assumes p: "grids h p = Some g" and q: "grids h q = Some g'"
    and ne: "elements g \<noteq> elements g'"
    and s: "set_cell h p r c v = Inr h'"
  shows "grid_view h' q = grid_view h q"
proof -
  obtain a xs' where a: "elements g = Some a" "h' = h\<lparr>arrays := (arrays h)(a \<mapsto> xs')\<rparr>"
    using set_cell_changes [OF s] p by auto
  have "elements g' \<noteq> Some a" using ne a(1) by simp
  then show ?thesis unfolding a(2) using q by (rule grid_view_frame [rotated])
qed

lemma well_formed_grids: "well_formed h p g xs \<Longrightarrow> grids h p = Some g"
  by (auto simp: well_formed_def owns_def split: option.splits)

lemma wf_A: "well_formed two_grids 100 grid_A [1, 2, 3, 4, 5, 6]"
  by (simp add: well_formed_def owns_def two_grids_def grid_A_def)

lemma wf_B: "well_formed two_grids 200 grid_B [7, 8]"
  by (simp add: well_formed_def owns_def two_grids_def grid_B_def)

text \<open>
  Claim C6. Copy construction and assignment of a grid make an independent deep copy.
  For a well-formed source grid, a well-formed target that does not share the source's
  array, and a new object: the assignment and the copy construction succeed; afterwards
  the copy shows the row count, the column count and the cells of the source, and the
  source shows what it showed before; a later \<open>set\<close> on the copy leaves the source as
  it was and a later \<open>set\<close> on the source leaves the copy as it was; and assigning a
  grid to itself returns the store unchanged.
\<close>

theorem grid_deep_copy:
  assumes src: "well_formed h src gs xs"
    and dst: "well_formed h this gt ts" "this \<noteq> src"
             "elements gt = None \<or> elements gt \<noteq> elements gs"
    and new: "new \<noteq> src"
  shows "\<exists>h1 h2.
        assign init h this src = Inr h1
      \<and> Grid_copy init h new src = Inr h2
      \<and> grid_view h src = Inr (nRows gs, nCols gs, xs)
      \<and> grid_view h1 this = Inr (nRows gs, nCols gs, xs)
      \<and> grid_view h1 src = Inr (nRows gs, nCols gs, xs)
      \<and> grid_view h2 new = Inr (nRows gs, nCols gs, xs)
      \<and> grid_view h2 src = Inr (nRows gs, nCols gs, xs)
      \<and> (\<forall>r c v h'. set_cell h1 this r c v = Inr h' \<longrightarrow> grid_view h' src = grid_view h1 src)
      \<and> (\<forall>r c v h'. set_cell h1 src r c v = Inr h' \<longrightarrow> grid_view h' this = grid_view h1 this)
      \<and> (\<forall>r c v h'. set_cell h2 new r c v = Inr h' \<longrightarrow> grid_view h' src = grid_view h2 src)
      \<and> (\<forall>r c v h'. set_cell h2 src r c v = Inr h' \<longrightarrow> grid_view h' new = grid_view h2 new)
      \<and> assign init h this this = Inr h"
proof -
  obtain hx where del: "delete_array h (elements gt) = Inr hx" and srcd: "well_formed hx src gs xs"
    using delete_target [OF dst(1) src dst(3)] by blast
  define g1 where "g1 = \<lparr>elements = Some (next_addr hx), nRows = nRows gs, nCols = nCols gs\<rparr>"
  define g2 where "g2 = \<lparr>elements = Some (next_addr h), nRows = nRows gs, nCols = nCols gs\<rparr>"
  obtain h1 where h1: "deepCopy init hx this src = Inr h1" "well_formed h1 src gs xs"
      "owns h1 this g1 (next_addr hx) xs" "elements gs \<noteq> Some (next_addr hx)"
    using deepCopy_well_formed(1) [OF srcd dst(2), of init] deepCopy_well_formed(2-4) [OF srcd dst(2)]
    unfolding g1_def by blast
  obtain h2 where h2: "deepCopy init h new src = Inr h2" "well_formed h2 src gs xs"
      "owns h2 new g2 (next_addr h) xs" "elements gs \<noteq> Some (next_addr h)"
    using deepCopy_well_formed(1) [OF src new, of init] deepCopy_well_formed(2-4) [OF src new]
    unfolding g2_def by blast
  have gt: "grids h this = Some gt" using dst(1) by (rule well_formed_grids)
  have a1: "assign init h this src = Inr h1"
    using dst(2) gt del h1(1) by (simp add: assign_def bind_err_def deref_def)
  have a2: "Grid_copy init h new src = Inr h2"
    using h2(1) by (simp add: Grid_copy_def)
  have self: "assign init h this this = Inr h"
    by (simp add: assign_def)
  have s1: "grids h1 src = Some gs" and s2: "grids h2 src = Some gs"
    using h1(2) h2(2) by (simp_all add: well_formed_grids)
  have c1: "grids h1 this = Some g1" "elements g1 = Some (next_addr hx)"
    and c2: "grids h2 new = Some g2" "elements g2 = Some (next_addr h)"
    using h1(3) h2(3) by (simp_all add: owns_def)
  have n1: "elements g1 \<noteq> elements gs" "elements gs \<noteq> elements g1"
    and n2: "elements g2 \<noteq> elements gs" "elements gs \<noteq> elements g2"
    using h1(4) h2(4) c1(2) c2(2) by auto
  have f1: "\<forall>r c v h'. set_cell h1 this r c v = Inr h' \<longrightarrow> grid_view h' src = grid_view h1 src"
    using set_cell_frame [OF c1(1) s1 n1(1)] by blast
  have f2: "\<forall>r c v h'. set_cell h1 src r c v = Inr h' \<longrightarrow> grid_view h' this = grid_view h1 this"
    using set_cell_frame [OF s1 c1(1) n1(2)] by blast
  have f3: "\<forall>r c v h'. set_cell h2 new r c v = Inr h' \<longrightarrow> grid_view h' src = grid_view h2 src"
    using set_cell_frame [OF c2(1) s2 n2(1)] by blast
  have f4: "\<forall>r c v h'. set_cell h2 src r c v = Inr h' \<longrightarrow> grid_view h' new = grid_view h2 new"
    using set_cell_frame [OF s2 c2(1) n2(2)] by blast
  have v: "grid_view h src = Inr (nRows gs, nCols gs, xs)"
      "grid_view h1 src = Inr (nRows gs, nCols gs, xs)"
      "grid_view h2 src = Inr (nRows gs, nCols gs, xs)"
    using grid_view_well_formed [OF src] grid_view_well_formed [OF h1(2)]
      grid_view_well_formed [OF h2(2)] by simp_all
  have w: "grid_view h1 this = Inr (nRows gs, nCols gs, xs)"
      "grid_view h2 new = Inr (nRows gs, nCols gs, xs)"
    using grid_view_owns [OF h1(3)] grid_view_owns [OF h2(3)] by (simp_all add: g1_def g2_def)
  show ?thesis
    using a1 a2 self f1 f2 f3 f4 v w by blast
qed

theorem grid_deep_copy_witness:
  "well_formed two_grids 100 grid_A [1, 2, 3, 4, 5, 6]
   \<and> well_formed two_grids 200 grid_B [7, 8]
   \<and> elements grid_B \<noteq> elements grid_A
   \<and> (\<exists>h1 h2. assign 0 two_grids 200 100 = Inr h1
        \<and> Grid_copy 0 two_grids 300 100 = Inr h2
        \<and> grid_view h1 200 = Inr (2, 3, [1, 2, 3, 4, 5, 6])
        \<and> grid_view h1 100 = Inr (2, 3, [1, 2, 3, 4, 5, 6])
        \<and> grid_view h2 300 = Inr (2, 3, [1, 2, 3, 4, 5, 6]))
   \<and> assign 0 two_grids 200 200 = Inr two_grids"
proof -
  have d: "(200::nat) \<noteq> 100" "(300::nat) \<noteq> 100" by simp_all
  have e: "elements grid_B \<noteq> elements grid_A" by (simp add: grid_A_def grid_B_def)
  then have e': "elements grid_B = None \<or> elements grid_B \<noteq> elements grid_A" by simp
  have n: "nRows grid_A = 2" "nCols grid_A = 3" by (simp_all add: grid_A_def)
  show ?thesis
    using wf_A wf_B e grid_deep_copy [OF wf_A wf_B d(1) e' d(2), of 0]
    unfolding n by blast
qed

subsection \<open>Resizing\<close>

text \<open>
  \<open>resize\<close> without retaining establishes the precondition of the in-bounds access:
  from a well-formed grid, and for dimensions whose product is within the range of
  \<open>int\<close>, it returns a grid that owns an array of \<open>nRows * nCols\<close> default cells.
\<close>

lemma fill_loop_default:
  assumes "arrays h a = Some (replicate (nat n) v)" "0 \<le> i"
  shows "fill_loop i n (Some a) v h = Inr h"
  using assms
proof (induction i n "Some a" v h rule: fill_loop.induct)
  case (1 i n v h)
  show ?case
  proof (cases "i < n")
    case False
    then show ?thesis by (subst fill_loop.simps) simp
  next
    case True
    have "nat i < length (replicate (nat n) v)" using True "1.prems"(2) by simp
    then have "(replicate (nat n) v)[nat i := v] = replicate (nat n) v"
      by (simp add: list_update_same_conv)
    then have "h\<lparr>arrays := (arrays h)(a \<mapsto> (replicate (nat n) v)[nat i := v])\<rparr> = h"
      using "1.prems"(1) by (simp add: fun_upd_idem)
    then have w: "array_write h (Some a) i v = Inr h"
      using "1.prems" True by (simp add: array_write_def)
    have "fill_loop (i + 1) n (Some a) v h = Inr h"
      using "1.prems" by (intro "1.hyps" [OF True]) simp_all
    then show ?thesis using True w by (subst fill_loop.simps) (simp add: bind_err_def)
  qed
qed

lemma resize_establishes_owns:
  assumes wf: "well_formed h this g xs"
    and d: "0 \<le> nRows'" "0 \<le> nCols'" "nRows' * nCols' \<le> 2147483647"
  shows "\<exists>h'. resize dflt h this nRows' nCols' False = Inr h'
            \<and> owns h' this \<lparr>elements = Some (next_addr h), nRows = nRows', nCols = nCols'\<rparr>
                 (next_addr h) (replicate (nat (nRows' * nCols')) dflt)"
proof -
  define n where "n = nRows' * nCols'"
  have n: "0 \<le> n" "n \<le> 2147483647" using d by (simp_all add: n_def)
  then have m: "int_mul nRows' nCols' = n" by (simp add: int_mul_def int_wrap_id n_def)
  have g: "grids h this = Some g" using wf by (rule well_formed_grids)
  define a where "a = next_addr h"
  define g' where "g' = \<lparr>elements = Some a, nRows = nRows', nCols = nCols'\<rparr>"
  define h2 where "h2 = h\<lparr>arrays := (arrays h)(a \<mapsto> replicate (nat n) dflt),
                  next_addr := Suc a, grids := (grids h)(this \<mapsto> g')\<rparr>"
  have f: "fill_loop 0 n (Some a) dflt h2 = Inr h2"
    by (rule fill_loop_default) (simp_all add: h2_def)
  have o2: "owns h2 this g' a (replicate (nat n) dflt)"
    using n d by (simp add: owns_def h2_def g'_def n_def)
  show ?thesis
  proof (cases "elements g")
    case None
    have "resize dflt h this nRows' nCols' False = Inr h2"
      using d n g None f
      by (simp add: resize_def bind_err_def deref_def new_array_def m Let_def a_def h2_def g'_def)
    then show ?thesis using o2 by (simp add: a_def g'_def n_def)
  next
    case (Some b)
    then have b: "arrays h b = Some xs" "b < a"
      using wf by (simp_all add: well_formed_def owns_def a_def)
    have del: "delete_array h2 (Some b) = Inr (h2\<lparr>arrays := (arrays h2)(b := None)\<rparr>)"
      using b by (simp add: delete_array_def h2_def)
    have "resize dflt h this nRows' nCols' False = Inr (h2\<lparr>arrays := (arrays h2)(b := None)\<rparr>)"
      using d n g Some f del
      by (simp add: resize_def bind_err_def deref_def new_array_def m Let_def a_def h2_def g'_def)
    moreover have "owns (h2\<lparr>arrays := (arrays h2)(b := None)\<rparr>) this g' a (replicate (nat n) dflt)"
      using o2 b by (auto simp: owns_def)
    ultimately show ?thesis by (simp add: a_def g'_def n_def)
  qed
qed

text \<open>
  Claim C8. After \<open>resize(newRows, newCols, true)\<close> every position inside both the old
  and the new bounds is to hold the value it held before. The retaining loop reads the
  old array at \<open>row * oldnRows + col\<close>, the old row count standing where the old
  column count belongs: resizing the 2-by-3 grid holding 1 to 6 to its own size leaves
  3 at position (1, 0), which held 4, and changes the whole second row.
\<close>

theorem resize_retain_wrong_stride:
  "get two_grids 100 1 0 = Inr 4
   \<and> bind_err (resize 0 two_grids 100 2 3 True) (\<lambda>h. get h 100 1 0) = Inr 3
   \<and> bind_err (resize 0 two_grids 100 2 3 True) (\<lambda>h. grid_view h 100)
        = Inr (2, 3, [1, 2, 3, 3, 4, 5])"
  by code_simp

section \<open>Properties of the lexicon's iterator\<close>

















text \<open>
  Claim C1. A full iteration pass is to yield the distinct words of the union of the
  two stores in strictly increasing order. On the spec's own example (compressed data
  holding "cat", "car" and "cart", then \<open>add("care")\<close>, for which the spec lists
  car, care, cart, cat) both stores are in ascending order and share no word, and the
  pass yields car, cart, cat, care. After the first increment the compressed store's
  candidate is "cart", held as the prefix "car" and the edge of t, and the set's
  candidate is "care": \<open>operator++\<close> and \<open>operator*\<close> compare \<open>currentDawgPrefix\<close>,
  the candidate without its last letter, with the set's candidate, find "car" below
  "care" and yield "cart" first.
\<close>

theorem iteration_order_violated:
  "lexicon_ok car_lexicon
   \<and> sorted_wrt (<) (dawg_words car_lexicon)
   \<and> sorted_wrt (<) (otherWords car_lexicon)
   \<and> set (dawg_words car_lexicon) \<inter> set (otherWords car_lexicon) = {}
   \<and> iterate 0 car_lexicon = Some [''car'', ''cart'', ''cat'', ''care'']
   \<and> ''care'' < ''cart''
   \<and> operator_deref car_lexicon (operator_inc car_lexicon (begin_it 0 car_lexicon)) = ''cart''
   \<and> currentDawgPrefix (operator_inc car_lexicon (begin_it 0 car_lexicon)) = ''car''
   \<and> currentSetWord (operator_inc car_lexicon (begin_it 0 car_lexicon)) = ''care''"
  by code_simp

end
